theory Spec2Isabelle
  imports Complex_Main "HOL-Library.Product_Lexorder" "HOL-Library.Multiset"
begin

section \<open>Python string primitives used by the scripts\<close>

text \<open>
  A Python \<^verbatim>\<open>str\<close> is modelled as a \<^typ>\<open>string\<close>: a list of 8-bit characters, read as
  the code points U+0000 to U+00FF. The character classes below are those of CPython 3
  restricted to that range.
\<close>

text \<open>\<^verbatim>\<open>str.isspace\<close> on one character; also what \<^verbatim>\<open>\s\<close> matches in \<^verbatim>\<open>re\<close> on a str pattern.\<close>

definition isspace :: "char \<Rightarrow> bool" where
  "isspace c = (c \<in> set [CHR 0x09, CHR 0x0A, CHR 0x0B, CHR 0x0C, CHR 0x0D,
                           CHR 0x1C, CHR 0x1D, CHR 0x1E, CHR 0x1F, CHR 0x20,
                           CHR 0x85, CHR 0xA0])"

text \<open>The line boundaries of \<^verbatim>\<open>str.splitlines\<close>: LF, VT, FF, CR, FS, GS, RS and NEL.\<close>

definition islinebreak :: "char \<Rightarrow> bool" where
  "islinebreak c = (c \<in> set [CHR 0x0A, CHR 0x0B, CHR 0x0C, CHR 0x0D,
                               CHR 0x1C, CHR 0x1D, CHR 0x1E, CHR 0x85])"

definition upper_chars :: string where
  "upper_chars = ''ABCDEFGHIJKLMNOPQRSTUVWXYZ'' @
     [CHR 0xC0, CHR 0xC1, CHR 0xC2, CHR 0xC3, CHR 0xC4, CHR 0xC5, CHR 0xC6, CHR 0xC7,
      CHR 0xC8, CHR 0xC9, CHR 0xCA, CHR 0xCB, CHR 0xCC, CHR 0xCD, CHR 0xCE, CHR 0xCF,
      CHR 0xD0, CHR 0xD1, CHR 0xD2, CHR 0xD3, CHR 0xD4, CHR 0xD5, CHR 0xD6,
      CHR 0xD8, CHR 0xD9, CHR 0xDA, CHR 0xDB, CHR 0xDC, CHR 0xDD, CHR 0xDE]"

definition lower_chars :: string where
  "lower_chars = ''abcdefghijklmnopqrstuvwxyz'' @
     [CHR 0xE0, CHR 0xE1, CHR 0xE2, CHR 0xE3, CHR 0xE4, CHR 0xE5, CHR 0xE6, CHR 0xE7,
      CHR 0xE8, CHR 0xE9, CHR 0xEA, CHR 0xEB, CHR 0xEC, CHR 0xED, CHR 0xEE, CHR 0xEF,
      CHR 0xF0, CHR 0xF1, CHR 0xF2, CHR 0xF3, CHR 0xF4, CHR 0xF5, CHR 0xF6,
      CHR 0xF8, CHR 0xF9, CHR 0xFA, CHR 0xFB, CHR 0xFC, CHR 0xFD, CHR 0xFE]"

text \<open>\<^verbatim>\<open>str.lower\<close> on one character, and on a text.\<close>

definition lower_char :: "char \<Rightarrow> char" where
  "lower_char c = (case map_of (zip upper_chars lower_chars) c of Some d \<Rightarrow> d | None \<Rightarrow> c)"

definition lower :: "string \<Rightarrow> string" where
  "lower s = map lower_char s"

text \<open>\<^verbatim>\<open>s.startswith(p)\<close>.\<close>

definition startswith :: "string \<Rightarrow> string \<Rightarrow> bool" where
  "startswith s p = (take (length p) s = p)"

text \<open>\<^verbatim>\<open>k in text\<close> on strings: \<open>k\<close> occurs as a contiguous substring of \<open>text\<close>.\<close>

fun str_in :: "string \<Rightarrow> string \<Rightarrow> bool" where
  "str_in k [] = (k = [])"
| "str_in k (c # cs) = (startswith (c # cs) k \<or> str_in k cs)"

text \<open>\<^verbatim>\<open>sep.join(xs)\<close>.\<close>

fun join :: "string \<Rightarrow> string list \<Rightarrow> string" where
  "join sep [] = []"
| "join sep [x] = x"
| "join sep (x # y # ys) = x @ sep @ join sep (y # ys)"

text \<open>
  \<^verbatim>\<open>s.split()\<close> with no argument: the maximal runs of non-whitespace characters.
  \<open>cur\<close> is the word being read.
\<close>

fun split_acc :: "string \<Rightarrow> string \<Rightarrow> string list" where
  "split_acc cur [] = (if cur = [] then [] else [cur])"
| "split_acc cur (c # cs) =
     (if isspace c then (if cur = [] then split_acc [] cs else cur # split_acc [] cs)
      else split_acc (cur @ [c]) cs)"

definition split :: "string \<Rightarrow> string list" where
  "split s = split_acc [] s"

text \<open>
  \<^verbatim>\<open>s.splitlines()\<close>: the text is cut at every line boundary, CR LF counting as one; the
  boundaries are dropped, and a boundary at the very end opens no further line.
\<close>

fun splitlines_acc :: "string \<Rightarrow> string \<Rightarrow> string list" where
  "splitlines_acc cur [] = (if cur = [] then [] else [cur])"
| "splitlines_acc cur [c] = (if islinebreak c then [cur] else [cur @ [c]])"
| "splitlines_acc cur (c # d # cs) =
     (if c = CHR 0x0D \<and> d = CHR 0x0A then cur # splitlines_acc [] cs
      else if islinebreak c then cur # splitlines_acc [] (d # cs)
      else splitlines_acc (cur @ [c]) (d # cs))"

definition splitlines :: "string \<Rightarrow> string list" where
  "splitlines s = splitlines_acc [] s"

text \<open>\<^verbatim>\<open>s.strip()\<close> with no argument.\<close>

definition strip :: "string \<Rightarrow> string" where
  "strip s = rev (dropWhile isspace (rev (dropWhile isspace s)))"

text \<open>\<^verbatim>\<open>str(n)\<close> for a non-negative integer: its decimal digits.\<close>

definition digit_char :: "nat \<Rightarrow> char" where
  "digit_char d = ''0123456789'' ! d"

fun str_nat :: "nat \<Rightarrow> string" where
  "str_nat n = (if n < 10 then [digit_char n] else str_nat (n div 10) @ [digit_char (n mod 10)])"

declare str_nat.simps [simp del]


section \<open>difflib\<close>

text \<open>
  The two library routines that \<^verbatim>\<open>meaningful_delta\<close> calls, after CPython 3.11's
  \<^verbatim>\<open>difflib.py\<close>. Both matchers are built with \<^verbatim>\<open>isjunk=None\<close> and the default
  \<^verbatim>\<open>autojunk=True\<close>, so the junk set is empty and only the popularity heuristic of
  \<^verbatim>\<open>__chain_b\<close> applies.
\<close>

subsection \<open>\<^verbatim>\<open>SequenceMatcher.quick_ratio\<close>\<close>

text \<open>
  \<^verbatim>\<open>_calculate_ratio\<close>. The quotient is the exact one, a \<^typ>\<open>real\<close>; the rounding of
  Python's binary floating point is not part of the model.
\<close>

definition calculate_ratio :: "nat \<Rightarrow> nat \<Rightarrow> real" where
  "calculate_ratio matches len = (if len \<noteq> 0 then 2 * real matches / real len else 1)"

text \<open>The dictionary \<^verbatim>\<open>fullbcount\<close>: how often each element occurs in \<open>b\<close>.\<close>

definition fullbcount :: "'a list \<Rightarrow> ('a \<rightharpoonup> int)" where
  "fullbcount b =
     fold (\<lambda>elt m. m(elt \<mapsto> (case m elt of None \<Rightarrow> 0 | Some n \<Rightarrow> n) + 1)) b Map.empty"

text \<open>The loop over \<open>a\<close> of \<^verbatim>\<open>quick_ratio\<close>, with its dictionary \<^verbatim>\<open>avail\<close> and its counter.\<close>

fun quick_loop :: "('a \<rightharpoonup> int) \<Rightarrow> ('a \<rightharpoonup> int) \<Rightarrow> nat \<Rightarrow> 'a list \<Rightarrow> nat" where
  "quick_loop fbc avail matches [] = matches"
| "quick_loop fbc avail matches (elt # rest) =
     (let numb = (case avail elt of Some n \<Rightarrow> n
                  | None \<Rightarrow> (case fbc elt of Some n \<Rightarrow> n | None \<Rightarrow> 0))
      in quick_loop fbc (avail(elt \<mapsto> numb - 1))
           (if numb > 0 then matches + 1 else matches) rest)"

definition quick_ratio :: "'a list \<Rightarrow> 'a list \<Rightarrow> real" where
  "quick_ratio a b =
     calculate_ratio (quick_loop (fullbcount b) Map.empty 0 a) (length a + length b)"

subsection \<open>\<^verbatim>\<open>SequenceMatcher.find_longest_match\<close>\<close>

text \<open>
  \<^verbatim>\<open>__chain_b\<close>: \<open>b2j\<close> maps an element of \<open>b\<close> to the increasing list of its positions;
  when \<open>b\<close> has at least 200 elements, those occurring more than \<open>n // 100 + 1\<close> times
  are popular and lose their entry.
\<close>

definition chain_b :: "'a list \<Rightarrow> ('a \<rightharpoonup> nat list)" where
  "chain_b b =
     (let b2j = fold (\<lambda>(i, elt) m. m(elt \<mapsto> (case m elt of None \<Rightarrow> [] | Some idxs \<Rightarrow> idxs) @ [i]))
                  (enumerate 0 b) Map.empty;
          n = length b
      in if n \<ge> 200
         then (let ntest = n div 100 + 1
               in (\<lambda>elt. case b2j elt of None \<Rightarrow> None
                          | Some idxs \<Rightarrow> if length idxs > ntest then None else Some idxs))
         else b2j)"

type_synonym match = "nat \<times> nat \<times> nat"

text \<open>
  \<^verbatim>\<open>j2len.get(j-1, 0)\<close>: the keys of \<open>j2len\<close> are positions of \<open>b\<close>, so the key \<open>-1\<close>
  asked for at \<open>j = 0\<close> is never present.
\<close>

definition j2lenget :: "(nat \<rightharpoonup> nat) \<Rightarrow> nat \<Rightarrow> nat" where
  "j2lenget j2len j = (if j = 0 then 0 else case j2len (j - 1) of None \<Rightarrow> 0 | Some k \<Rightarrow> k)"

text \<open>
  The inner loop, over the positions \<open>j\<close> of \<open>a[i]\<close> in \<open>b\<close>: \<^verbatim>\<open>continue\<close> below \<open>blo\<close>,
  \<^verbatim>\<open>break\<close> from \<open>bhi\<close> on. The state is \<open>newj2len\<close> and the best match so far.
  The source's \<open>i-k+1\<close> and \<open>j-k+1\<close> are written \<open>i + 1 - k\<close> and \<open>j + 1 - k\<close>: \<open>k\<close> is
  the length of a match that ends at \<open>a[i]\<close> and \<open>b[j]\<close>, so nothing is cut off.
\<close>

fun scan_js :: "nat \<Rightarrow> nat \<Rightarrow> nat \<Rightarrow> (nat \<rightharpoonup> nat) \<Rightarrow> nat list \<Rightarrow>
    (nat \<rightharpoonup> nat) \<times> match \<Rightarrow> (nat \<rightharpoonup> nat) \<times> match" where
  "scan_js blo bhi i j2len [] st = st"
| "scan_js blo bhi i j2len (j # js) (newj2len, besti, bestj, bestsize) =
     (if j < blo then scan_js blo bhi i j2len js (newj2len, besti, bestj, bestsize)
      else if j \<ge> bhi then (newj2len, besti, bestj, bestsize)
      else (let k = j2lenget j2len j + 1
            in scan_js blo bhi i j2len js
                 (newj2len(j \<mapsto> k),
                  if k > bestsize then (i + 1 - k, j + 1 - k, k) else (besti, bestj, bestsize))))"

text \<open>The outer loop \<^verbatim>\<open>for i in range(alo, ahi)\<close>.\<close>

fun scan_is :: "'a list \<Rightarrow> ('a \<rightharpoonup> nat list) \<Rightarrow> nat \<Rightarrow> nat \<Rightarrow> nat list \<Rightarrow>
    (nat \<rightharpoonup> nat) \<times> match \<Rightarrow> match" where
  "scan_is a b2j blo bhi [] (j2len, best) = best"
| "scan_is a b2j blo bhi (i # is) (j2len, best) =
     scan_is a b2j blo bhi is
       (scan_js blo bhi i j2len (case b2j (a ! i) of None \<Rightarrow> [] | Some js \<Rightarrow> js)
          (Map.empty, best))"

text \<open>
  The two loops that extend the best match by equal elements, first to the left, then to
  the right. (The two further loops of the source extend over junk elements only, and
  there are none.)
\<close>

function extend_left :: "'a list \<Rightarrow> 'a list \<Rightarrow> nat \<Rightarrow> nat \<Rightarrow> match \<Rightarrow> match" where
  "extend_left a b alo blo (besti, bestj, bestsize) =
     (if besti > alo \<and> bestj > blo \<and> a ! (besti - 1) = b ! (bestj - 1)
      then extend_left a b alo blo (besti - 1, bestj - 1, bestsize + 1)
      else (besti, bestj, bestsize))"
  by pat_completeness auto
termination
  by (relation "measure (\<lambda>(a, b, alo, blo, besti, bestj, bestsize). besti)") auto

function extend_right :: "'a list \<Rightarrow> 'a list \<Rightarrow> nat \<Rightarrow> nat \<Rightarrow> match \<Rightarrow> match" where
  "extend_right a b ahi bhi (besti, bestj, bestsize) =
     (if besti + bestsize < ahi \<and> bestj + bestsize < bhi
         \<and> a ! (besti + bestsize) = b ! (bestj + bestsize)
      then extend_right a b ahi bhi (besti, bestj, bestsize + 1)
      else (besti, bestj, bestsize))"
  by pat_completeness auto
termination
  by (relation "measure (\<lambda>(a, b, ahi, bhi, besti, bestj, bestsize). ahi - (besti + bestsize))")
     auto

declare extend_left.simps [simp del]
declare extend_right.simps [simp del]

definition find_longest_match ::
    "'a list \<Rightarrow> 'a list \<Rightarrow> ('a \<rightharpoonup> nat list) \<Rightarrow> nat \<Rightarrow> nat \<Rightarrow> nat \<Rightarrow> nat \<Rightarrow> match" where
  "find_longest_match a b b2j alo ahi blo bhi =
     extend_right a b ahi bhi
       (extend_left a b alo blo
          (scan_is a b2j blo bhi [alo..<ahi] (Map.empty, (alo, blo, 0))))"

text \<open>
  Where the longest match lies: it starts at or after \<open>alo\<close> and, unless it is empty,
  ends at or before \<open>ahi\<close>. The queue loop of \<^verbatim>\<open>get_matching_blocks\<close> terminates
  because of this.
\<close>

definition best_ok :: "nat \<Rightarrow> nat \<Rightarrow> match \<Rightarrow> bool" where
  "best_ok alo n m = (case m of (besti, bestj, bestsize) \<Rightarrow>
      alo \<le> besti \<and> (bestsize = 0 \<and> besti = alo \<or> besti + bestsize \<le> n))"

definition j2len_ok :: "nat \<Rightarrow> nat \<Rightarrow> (nat \<rightharpoonup> nat) \<Rightarrow> bool" where
  "j2len_ok alo n j2len = (\<forall>j k. j2len j = Some k \<longrightarrow> k + alo \<le> n)"

lemma j2lenget_ok:
  assumes "j2len_ok alo n j2len"
  shows "j2lenget j2len j + alo \<le> max alo n"
proof (cases "j = 0")
  case True
  then show ?thesis by (simp add: j2lenget_def)
next
  case False
  show ?thesis
  proof (cases "j2len (j - 1)")
    case None
    with False show ?thesis by (simp add: j2lenget_def)
  next
    case (Some k)
    with assms have "k + alo \<le> n" unfolding j2len_ok_def by blast
    with Some False show ?thesis by (simp add: j2lenget_def)
  qed
qed

lemma scan_js_ok:
  assumes "j2len_ok alo i j2len" "alo \<le> i"
    and "j2len_ok alo (Suc i) newj2len" "best_ok alo (Suc i) best"
    and "scan_js blo bhi i j2len js (newj2len, best) = (nj, best')"
  shows "j2len_ok alo (Suc i) nj \<and> best_ok alo (Suc i) best'"
  using assms(3-)
proof (induction js arbitrary: newj2len best)
  case Nil
  then show ?case by simp
next
  case (Cons j js)
  obtain besti bestj bestsize where best: "best = (besti, bestj, bestsize)"
    by (cases best) auto
  from j2lenget_ok[OF assms(1), of j] assms(2)
  have k: "j2lenget j2len j + alo \<le> i" by simp
  show ?case
  proof (cases "j < blo")
    case True
    with Cons best show ?thesis by simp
  next
    case False
    note nlt = this
    show ?thesis
    proof (cases "j \<ge> bhi")
      case True
      with Cons nlt best show ?thesis by simp
    next
      case False
      let ?k = "j2lenget j2len j + 1"
      let ?b = "if ?k > bestsize then (i + 1 - ?k, j + 1 - ?k, ?k) else (besti, bestj, bestsize)"
      have 1: "j2len_ok alo (Suc i) (newj2len(j \<mapsto> ?k))"
        using Cons.prems(1) k by (auto simp: j2len_ok_def)
      have 2: "best_ok alo (Suc i) ?b"
        using Cons.prems(2) k best by (auto simp: best_ok_def)
      have "scan_js blo bhi i j2len js (newj2len(j \<mapsto> ?k), ?b) = (nj, best')"
        using Cons.prems(3) nlt False best by (auto simp: Let_def split: if_splits)
      from Cons.IH[OF 1 2 this] show ?thesis .
    qed
  qed
qed

lemma best_ok_mono: "best_ok alo n m \<Longrightarrow> n \<le> n' \<Longrightarrow> best_ok alo n' m"
  by (auto simp: best_ok_def)

lemma scan_is_ok:
  assumes "j2len_ok alo m j2len" "alo \<le> m" "best_ok alo m best"
  shows "best_ok alo (max m ahi) (scan_is a b2j blo bhi [m..<ahi] (j2len, best))"
  using assms
proof (induction "ahi - m" arbitrary: m j2len best)
  case 0
  then show ?case by (simp add: max_def)
next
  case (Suc n)
  then have lt: "m < ahi" by simp
  obtain nj best' where sj: "scan_js blo bhi m j2len
      (case b2j (a ! m) of None \<Rightarrow> [] | Some js \<Rightarrow> js) (Map.empty, best) = (nj, best')"
    by (cases "scan_js blo bhi m j2len
      (case b2j (a ! m) of None \<Rightarrow> [] | Some js \<Rightarrow> js) (Map.empty, best)") auto
  have e: "j2len_ok alo (Suc m) Map.empty" by (simp add: j2len_ok_def)
  from scan_js_ok[OF Suc.prems(1) Suc.prems(2) e best_ok_mono[OF Suc.prems(3)] sj]
  have ok: "j2len_ok alo (Suc m) nj" "best_ok alo (Suc m) best'" by simp_all
  have "n = ahi - Suc m" using Suc.hyps(2) by simp
  from Suc.hyps(1)[OF this ok(1) _ ok(2)] Suc.prems(2)
  have "best_ok alo (max (Suc m) ahi) (scan_is a b2j blo bhi [Suc m..<ahi] (nj, best'))"
    by simp
  moreover have "max (Suc m) ahi = max m ahi" using lt by simp
  ultimately show ?case using lt sj by (simp add: upt_conv_Cons)
qed

lemma extend_left_ok:
  "best_ok alo n m \<Longrightarrow> best_ok alo n (extend_left a b alo blo m)"
proof (induction a b alo blo m rule: extend_left.induct)
  case (1 a b alo blo besti bestj bestsize)
  show ?case
  proof (cases "besti > alo \<and> bestj > blo \<and> a ! (besti - 1) = b ! (bestj - 1)")
    case True
    have "best_ok alo n (besti - 1, bestj - 1, bestsize + 1)"
      using 1(2) True by (auto simp: best_ok_def)
    from 1(1)[OF True this] True show ?thesis
      by (subst extend_left.simps) simp
  next
    case False
    then show ?thesis using 1(2) by (subst extend_left.simps) auto
  qed
qed

lemma extend_right_ok:
  "best_ok alo ahi m \<Longrightarrow> best_ok alo ahi (extend_right a b ahi bhi m)"
proof (induction a b ahi bhi m rule: extend_right.induct)
  case (1 a b ahi bhi besti bestj bestsize)
  show ?case
  proof (cases "besti + bestsize < ahi \<and> bestj + bestsize < bhi
         \<and> a ! (besti + bestsize) = b ! (bestj + bestsize)")
    case True
    have "best_ok alo ahi (besti, bestj, bestsize + 1)"
      using 1(2) True by (auto simp: best_ok_def)
    from 1(1)[OF True this] True show ?thesis
      by (subst extend_right.simps) simp
  next
    case False
    then show ?thesis using 1(2) by (subst extend_right.simps) auto
  qed
qed

lemma find_longest_match_bounds:
  assumes "find_longest_match a b b2j alo ahi blo bhi = (i, j, k)" "k \<noteq> 0"
  shows "alo \<le> i \<and> i + k \<le> ahi"
proof -
  have "best_ok alo alo (alo, blo, 0)" by (simp add: best_ok_def)
  moreover have "j2len_ok alo alo Map.empty" by (simp add: j2len_ok_def)
  ultimately have "best_ok alo (max alo ahi) (scan_is a b2j blo bhi [alo..<ahi] (Map.empty, (alo, blo, 0)))"
    using scan_is_ok[of alo alo Map.empty "(alo, blo, 0)" ahi a b2j blo bhi] by simp
  then have s: "best_ok alo ahi (scan_is a b2j blo bhi [alo..<ahi] (Map.empty, (alo, blo, 0)))"
    by (cases "alo \<le> ahi") (auto simp: max_def best_ok_def)
  have "best_ok alo ahi (i, j, k)"
    using extend_right_ok[OF extend_left_ok[OF s, of a b blo], of a b bhi] assms(1)
    by (simp add: find_longest_match_def)
  with assms(2) show ?thesis by (simp add: best_ok_def)
qed

lemma find_longest_match_bounds':
  assumes "(i, y) = find_longest_match a b b2j alo ahi blo bhi" "(j, k) = y" "k \<noteq> 0"
  shows "alo \<le> i \<and> i + k \<le> ahi"
  using find_longest_match_bounds[of a b b2j alo ahi blo bhi i j k] assms by simp

subsection \<open>\<^verbatim>\<open>get_matching_blocks\<close>, \<^verbatim>\<open>get_opcodes\<close>, \<^verbatim>\<open>get_grouped_opcodes\<close>\<close>

text \<open>
  The loop \<^verbatim>\<open>while queue\<close>. The Python list \<open>queue\<close> is used as a stack; its top is the
  head of the list here, so the range pushed last (the one right of the match) is first.
\<close>

type_synonym qrange = "nat \<times> nat \<times> nat \<times> nat"

definition queue_size :: "qrange list \<Rightarrow> nat" where
  "queue_size queue = sum_list (map (\<lambda>(alo, ahi, blo, bhi). 2 * (ahi - alo) + 1) queue)"

function mb_loop :: "'a list \<Rightarrow> 'a list \<Rightarrow> ('a \<rightharpoonup> nat list) \<Rightarrow> qrange list \<Rightarrow>
    match list \<Rightarrow> match list" where
  "mb_loop a b b2j [] matching_blocks = matching_blocks"
| "mb_loop a b b2j ((alo, ahi, blo, bhi) # queue) matching_blocks =
     (case find_longest_match a b b2j alo ahi blo bhi of (i, j, k) \<Rightarrow>
        if k \<noteq> 0
        then mb_loop a b b2j
               ((if i + k < ahi \<and> j + k < bhi then [(i + k, ahi, j + k, bhi)] else []) @
                (if alo < i \<and> blo < j then [(alo, i, blo, j)] else []) @ queue)
               (matching_blocks @ [(i, j, k)])
        else mb_loop a b b2j queue matching_blocks)"
  by pat_completeness auto
termination
  apply (relation "measure (\<lambda>(a, b, b2j, queue, blocks). queue_size queue)")
  subgoal by simp
  subgoal by (frule (2) find_longest_match_bounds') (auto simp: queue_size_def)
  subgoal by (simp add: queue_size_def)
  done


text \<open>
  The loop that merges adjacent blocks into \<^verbatim>\<open>non_adjacent\<close>; \<open>(i1, j1, k1)\<close> is the block
  being grown, \<open>(0, 0, 0)\<close> at the start.
\<close>

fun collapse :: "match \<Rightarrow> match list \<Rightarrow> match list" where
  "collapse (i1, j1, k1) [] = (if k1 \<noteq> 0 then [(i1, j1, k1)] else [])"
| "collapse (i1, j1, k1) ((i2, j2, k2) # ms) =
     (if i1 + k1 = i2 \<and> j1 + k1 = j2 then collapse (i1, j1, k1 + k2) ms
      else (if k1 \<noteq> 0 then [(i1, j1, k1)] else []) @ collapse (i2, j2, k2) ms)"

text \<open>\<^verbatim>\<open>matching_blocks.sort()\<close> orders the triples lexicographically.\<close>

definition get_matching_blocks :: "'a list \<Rightarrow> 'a list \<Rightarrow> match list" where
  "get_matching_blocks a b =
     (let la = length a; lb = length b;
          matching_blocks = sort (mb_loop a b (chain_b b) [(0, la, 0, lb)] [])
      in collapse (0, 0, 0) matching_blocks @ [(la, lb, 0)])"

datatype tag = Replace | Delete | Insert | Equal

type_synonym opcode = "tag \<times> nat \<times> nat \<times> nat \<times> nat"

text \<open>The loop of \<^verbatim>\<open>get_opcodes\<close> over the matching blocks, from the position \<open>(i, j)\<close>.\<close>

fun opcodes_loop :: "nat \<Rightarrow> nat \<Rightarrow> match list \<Rightarrow> opcode list" where
  "opcodes_loop i j [] = []"
| "opcodes_loop i j ((ai, bj, sz) # ms) =
     (if i < ai \<and> j < bj then [(Replace, i, ai, j, bj)]
      else if i < ai then [(Delete, i, ai, j, bj)]
      else if j < bj then [(Insert, i, ai, j, bj)]
      else []) @
     (if sz \<noteq> 0 then [(Equal, ai, ai + sz, bj, bj + sz)] else []) @
     opcodes_loop (ai + sz) (bj + sz) ms"

definition get_opcodes :: "'a list \<Rightarrow> 'a list \<Rightarrow> opcode list" where
  "get_opcodes a b = opcodes_loop 0 0 (get_matching_blocks a b)"

text \<open>
  The two fix-ups of \<^verbatim>\<open>get_grouped_opcodes\<close>: a leading equal range keeps its last \<open>n\<close>
  lines, a trailing one its first \<open>n\<close>. (\<open>i2 - n\<close> is cut off at zero here; the maximum
  with \<open>i1\<close> makes that invisible.)
\<close>

definition fix_first :: "nat \<Rightarrow> opcode list \<Rightarrow> opcode list" where
  "fix_first n codes =
     (case codes of
        (Equal, i1, i2, j1, j2) # rest \<Rightarrow> (Equal, max i1 (i2 - n), i2, max j1 (j2 - n), j2) # rest
      | _ \<Rightarrow> codes)"

definition fix_last :: "nat \<Rightarrow> opcode list \<Rightarrow> opcode list" where
  "fix_last n codes =
     (if codes = [] then codes
      else case last codes of
        (Equal, i1, i2, j1, j2) \<Rightarrow> butlast codes @ [(Equal, i1, min i2 (i1 + n), j1, min j2 (j1 + n))]
      | _ \<Rightarrow> codes)"

text \<open>The grouping loop; \<open>grp\<close> is the group being filled.\<close>

fun group_loop :: "nat \<Rightarrow> opcode list \<Rightarrow> opcode list \<Rightarrow> opcode list list" where
  "group_loop n [] grp =
     (if grp \<noteq> [] \<and> \<not> (length grp = 1 \<and> fst (hd grp) = Equal) then [grp] else [])"
| "group_loop n ((tag, i1, i2, j1, j2) # codes) grp =
     (if tag = Equal \<and> i2 - i1 > n + n
      then (grp @ [(tag, i1, min i2 (i1 + n), j1, min j2 (j1 + n))]) #
           group_loop n codes [(tag, max i1 (i2 - n), i2, max j1 (j2 - n), j2)]
      else group_loop n codes (grp @ [(tag, i1, i2, j1, j2)]))"

definition get_grouped_opcodes :: "'a list \<Rightarrow> 'a list \<Rightarrow> nat \<Rightarrow> opcode list list" where
  "get_grouped_opcodes a b n =
     (let codes = get_opcodes a b;
          codes = (if codes = [] then [(Equal, 0, 1, 0, 1)] else codes)
      in group_loop n (fix_last n (fix_first n codes)) [])"

subsection \<open>\<^verbatim>\<open>unified_diff\<close>\<close>

text \<open>\<^verbatim>\<open>_format_range_unified\<close>.\<close>

definition format_range_unified :: "nat \<Rightarrow> nat \<Rightarrow> string" where
  "format_range_unified start stop =
     (let beginning = start + 1; len = stop - start
      in if len = 1 then str_nat beginning
         else str_nat (if len = 0 then beginning - 1 else beginning) @ '','' @ str_nat len)"

text \<open>The Python slice \<^verbatim>\<open>xs[i1:i2]\<close> for \<open>0 \<le> i1\<close>, \<open>0 \<le> i2\<close>.\<close>

definition slice :: "'a list \<Rightarrow> nat \<Rightarrow> nat \<Rightarrow> 'a list" where
  "slice xs i1 i2 = take (i2 - i1) (drop i1 xs)"

text \<open>The lines that one opcode contributes to a hunk.\<close>

fun opcode_lines :: "string list \<Rightarrow> string list \<Rightarrow> opcode \<Rightarrow> string list" where
  "opcode_lines a b (tag, i1, i2, j1, j2) =
     (if tag = Equal then map (\<lambda>line. '' '' @ line) (slice a i1 i2)
      else (if tag = Replace \<or> tag = Delete then map (\<lambda>line. ''-'' @ line) (slice a i1 i2) else [])
         @ (if tag = Replace \<or> tag = Insert then map (\<lambda>line. ''+'' @ line) (slice b j1 j2) else []))"

text \<open>
  One hunk: its \<^verbatim>\<open>@@\<close> line, then the lines of its opcodes. A group is never empty; the
  source reads \<open>group[0]\<close> and \<open>group[-1]\<close>.
\<close>

definition hunk_lines :: "string list \<Rightarrow> string list \<Rightarrow> opcode list \<Rightarrow> string list" where
  "hunk_lines a b grp =
     (case (hd grp, last grp) of ((t1, f1, f2, f3, f4), (t2, l1, l2, l3, l4)) \<Rightarrow>
        (''@@ -'' @ format_range_unified f1 l2 @ '' +'' @ format_range_unified f3 l4 @ '' @@'')
        # concat (map (opcode_lines a b) grp))"

text \<open>
  \<^verbatim>\<open>unified_diff(a, b, lineterm="")\<close> with the defaults \<open>n = 3\<close> and empty file names and
  dates: the two header lines are \<^verbatim>\<open>"--- "\<close> and \<^verbatim>\<open>"+++ "\<close>, written before the first
  hunk, and nothing is written when there is no hunk.
\<close>

definition unified_diff :: "string list \<Rightarrow> string list \<Rightarrow> string list" where
  "unified_diff a b =
     (let groups = get_grouped_opcodes a b 3
      in if groups = [] then []
         else ''--- '' # ''+++ '' # concat (map (hunk_lines a b) groups))"


section \<open>\<^verbatim>\<open>scripts/watch.py\<close>\<close>

subsection \<open>\<^verbatim>\<open>meaningful_delta\<close>\<close>

text \<open>The test of the generator expression that counts the magnitude.\<close>

definition counted :: "string \<Rightarrow> bool" where
  "counted l = ((startswith l ''+'' \<or> startswith l ''-'')
                \<and> \<not> (startswith l ''+++'' \<or> startswith l ''---''))"

definition meaningful_delta :: "string \<Rightarrow> string \<Rightarrow> bool \<times> string \<times> nat" where
  "meaningful_delta a b =
     (let a_lines = split a; b_lines = split b;
          ratio = quick_ratio a_lines b_lines;
          diff = unified_diff (splitlines a) (splitlines b);
          diff_text = join [CHR 0x0A] diff;
          magnitude = length (filter counted (splitlines diff_text));
          changed = (ratio < 0.995 \<and> length diff_text > 120 \<and> magnitude > 8)
      in (changed, diff_text, magnitude))"

subsection \<open>The pattern of the effective date\<close>

text \<open>
  \<^verbatim>\<open>re.search\<close> is modelled for the constructs that the one pattern of \<^verbatim>\<open>classify\<close> uses:
  literals, character classes, greedy repetition of a class, concatenation, ordered
  alternation, the greedy \<^verbatim>\<open>?\<close> and capturing groups. \<open>Rep P lo hi\<close> repeats the class \<open>P\<close>
  at least \<open>lo\<close> times and at most \<open>hi\<close> times (without bound when \<open>hi\<close> is \<open>None\<close>).
  The pattern is compiled with \<^verbatim>\<open>re.I\<close>: a literal, written in lower case, matches a
  character whose lower case it is.
\<close>

datatype rx =
    Lit string
  | Cls "char \<Rightarrow> bool"
  | Rep "char \<Rightarrow> bool" nat "nat option"
  | Cat rx rx
  | Alt rx rx
  | Opt rx
  | Grp nat rx

text \<open>
  A matcher state is the text still to be read and the groups captured so far.
  \<open>rx_match r st\<close> lists the states in which a match of \<open>r\<close> starting at \<open>st\<close> can end, in
  the order in which the backtracking matcher tries them: the longer repetition first,
  the left alternative first, the optional part present first.
\<close>

type_synonym rx_state = "string \<times> (nat \<rightharpoonup> string)"

text \<open>Reading the literal \<open>w\<close> off the front of a text; the rest of the text if it is there.\<close>

fun lit_match :: "string \<Rightarrow> string \<Rightarrow> string option" where
  "lit_match [] s = Some s"
| "lit_match (c # w) [] = None"
| "lit_match (c # w) (d # s) = (if lower_char d = c then lit_match w s else None)"

fun rx_match :: "rx \<Rightarrow> rx_state \<Rightarrow> rx_state list" where
  "rx_match (Lit w) (s, g) = (case lit_match w s of Some s' \<Rightarrow> [(s', g)] | None \<Rightarrow> [])"
| "rx_match (Cls P) (s, g) = (case s of [] \<Rightarrow> [] | c # cs \<Rightarrow> if P c then [(cs, g)] else [])"
| "rx_match (Rep P lo hi) (s, g) =
     (let n = length (takeWhile P s);
          m = (case hi of None \<Rightarrow> n | Some h \<Rightarrow> min h n)
      in map (\<lambda>k. (drop k s, g)) (rev [lo..<m + 1]))"
| "rx_match (Cat r1 r2) st = concat (map (rx_match r2) (rx_match r1 st))"
| "rx_match (Alt r1 r2) st = rx_match r1 st @ rx_match r2 st"
| "rx_match (Opt r) st = rx_match r st @ [st]"
| "rx_match (Grp n r) (s, g) =
     map (\<lambda>(s', g'). (s', g'(n \<mapsto> take (length s - length s') s))) (rx_match r (s, g))"

text \<open>\<^verbatim>\<open>re.search\<close>: the first match at the leftmost position that has one; its groups.\<close>

fun re_search :: "rx \<Rightarrow> string \<Rightarrow> (nat \<rightharpoonup> string) option" where
  "re_search r [] = (case rx_match r ([], Map.empty) of st # _ \<Rightarrow> Some (snd st) | [] \<Rightarrow> None)"
| "re_search r (c # cs) =
     (case rx_match r (c # cs, Map.empty) of st # _ \<Rightarrow> Some (snd st) | [] \<Rightarrow> re_search r cs)"

text \<open>
  The classes of the pattern. Under \<^verbatim>\<open>re.I\<close> both \<^verbatim>\<open>[A-Z]\<close> and \<^verbatim>\<open>[a-z]\<close> match exactly the
  ASCII letters (among the characters up to U+00FF); \<^verbatim>\<open>\d\<close> matches the ten ASCII digits.
\<close>

definition ascii_letter :: "char \<Rightarrow> bool" where
  "ascii_letter c =
     (c \<in> set (''ABCDEFGHIJKLMNOPQRSTUVWXYZ'' @ ''abcdefghijklmnopqrstuvwxyz''))"

definition isdigit :: "char \<Rightarrow> bool" where
  "isdigit c = (c \<in> set ''0123456789'')"

text \<open>
  \<^verbatim>\<open>[A-Z][a-z]+\s+\d{1,2},\s*\d{4}|\d{4}-\d{2}-\d{2}\<close>
\<close>

definition date_rx :: rx where
  "date_rx =
     Alt (Cat (Cls ascii_letter) (Cat (Rep ascii_letter 1 None) (Cat (Rep isspace 1 None)
           (Cat (Rep isdigit 1 (Some 2)) (Cat (Lit '','') (Cat (Rep isspace 0 None)
           (Rep isdigit 4 (Some 4))))))))
         (Cat (Rep isdigit 4 (Some 4)) (Cat (Lit ''-'') (Cat (Rep isdigit 2 (Some 2))
           (Cat (Lit ''-'') (Rep isdigit 2 (Some 2))))))"

text \<open>
  \<^verbatim>\<open>(effective|starts|applies)\s+(on|from)?\s*(\<close>\<open>date_rx\<close>\<^verbatim>\<open>)\<close>
\<close>

definition effective_rx :: rx where
  "effective_rx =
     Cat (Grp 1 (Alt (Lit ''effective'') (Alt (Lit ''starts'') (Lit ''applies''))))
       (Cat (Rep isspace 1 None)
         (Cat (Opt (Grp 2 (Alt (Lit ''on'') (Lit ''from''))))
           (Cat (Rep isspace 0 None) (Grp 3 date_rx))))"

subsection \<open>\<^verbatim>\<open>classify\<close>\<close>

text \<open>The table \<^verbatim>\<open>CATS\<close>, in the order in which the dictionary is written and iterated.\<close>

definition CATS :: "(string \<times> string list) list" where
  "CATS =
    [(''pricing'', [''price'', ''pricing'', ''fee'', ''charge'', ''cost'', ''tier'', ''billing'']),
     (''data_usage'', [''data'', ''collect'', ''share'', ''retain'', ''store'', ''process'', ''retention'']),
     (''ip_ai_training'', [''train'', ''training'', ''ai'', ''model'', ''license'', ''ip'']),
     (''deprecation'', [''deprecat'', ''sunset'', ''remove'', ''eol'', ''replacement'', ''migrate'']),
     (''rate_limits'', [''rate limit'', ''quota'', ''rpm'', ''rps'', ''requests per'', ''throughput'']),
     (''acceptable_use'', [''prohibited'', ''abuse'', ''spam'', ''illegal'', ''malware'', ''harmful'']),
     (''privacy'', [''privacy'', ''gdpr'', ''ccpa'', ''pii'', ''data subject'', ''controller'', ''processor''])]"

text \<open>The dictionary that \<^verbatim>\<open>classify\<close> returns; \<open>tldr\<close> is its key \<^verbatim>\<open>"tl;dr"\<close>.\<close>

record classification =
  category :: string
  severity :: string
  tldr :: string
  effective_date :: "string option"

text \<open>
  \<^verbatim>\<open>str.upper\<close> on one character and \<^verbatim>\<open>str.title\<close>, by the same two tables. They are exact
  on ASCII text, which is what the category names and the severities are; beyond ASCII
  they follow the tables only (the letters whose capital lies beyond U+00FF are left as
  they are). Apart from category names, only the title of a notification uses them.
\<close>

definition upper_char :: "char \<Rightarrow> char" where
  "upper_char c = (case map_of (zip lower_chars upper_chars) c of Some d \<Rightarrow> d | None \<Rightarrow> c)"

definition upper :: "string \<Rightarrow> string" where
  "upper s = map upper_char s"

definition iscased :: "char \<Rightarrow> bool" where
  "iscased c = (c \<in> set (upper_chars @ lower_chars))"

fun title_acc :: "bool \<Rightarrow> string \<Rightarrow> string" where
  "title_acc previous_is_cased [] = []"
| "title_acc previous_is_cased (c # cs) =
     (if iscased c
      then (if previous_is_cased then lower_char c else upper_char c) # title_acc True cs
      else c # title_acc False cs)"

definition title :: "string \<Rightarrow> string" where
  "title s = title_acc False s"

text \<open>\<^verbatim>\<open>s.replace(old, new)\<close> for single characters.\<close>

definition replace_char :: "char \<Rightarrow> char \<Rightarrow> string \<Rightarrow> string" where
  "replace_char old new s = map (\<lambda>c. if c = old then new else c) s"

text \<open>The text in which the keywords are looked up.\<close>

definition changed_text :: "string \<Rightarrow> string" where
  "changed_text diff_text =
     join '' '' (map (drop 1)
       (filter (\<lambda>l. startswith l ''+'' \<or> startswith l ''-'') (splitlines diff_text)))"

definition search_text :: "string \<Rightarrow> string \<Rightarrow> string" where
  "search_text after diff_text = lower (after @ '' '' @ changed_text diff_text)"

text \<open>
  The loop over \<^verbatim>\<open>CATS.items()\<close>, with the state \<open>(category, best_hits)\<close>; the variable
  \<open>category\<close> of the source is \<open>category'\<close> here.
\<close>

fun cats_loop :: "string \<Rightarrow> (string \<times> string list) list \<Rightarrow> string \<times> nat \<Rightarrow> string \<times> nat" where
  "cats_loop text [] st = st"
| "cats_loop text ((cat, kws) # rest) (category', best_hits) =
     (let hits = length (filter (\<lambda>k. str_in k text) kws)
      in if hits > best_hits then cats_loop text rest (cat, hits)
         else cats_loop text rest (category', best_hits))"

definition classify :: "string \<Rightarrow> string \<Rightarrow> string \<Rightarrow> classification" where
  "classify before after diff_text =
     (let text = search_text after diff_text;
          (category', best_hits) = cats_loop text CATS (''privacy'', 0);
          sev = (if best_hits \<ge> 5 then ''critical''
                 else if best_hits \<ge> 3 then ''high''
                 else if best_hits \<ge> 2 then ''medium''
                 else ''low'');
          eff = (case re_search effective_rx after of
                   None \<Rightarrow> None
                 | Some groups \<Rightarrow> groups 3);
          tl = title (replace_char (CHR ''_'') (CHR '' '') category') @ '' change detected''
      in \<lparr>category = category', severity = sev, tldr = tl, effective_date = eff\<rparr>)"


subsection \<open>\<^verbatim>\<open>fetch_text\<close>\<close>

text \<open>
  \<^verbatim>\<open>re.sub(r"\s+", " ", text)\<close>: every maximal run of whitespace becomes one space.
  \<open>in_run\<close> says that the previous character was whitespace.
\<close>

fun sub_ws :: "bool \<Rightarrow> string \<Rightarrow> string" where
  "sub_ws in_run [] = []"
| "sub_ws in_run (c # cs) =
     (if isspace c then (if in_run then sub_ws True cs else CHR '' '' # sub_ws True cs)
      else c # sub_ws False cs)"

text \<open>The last two lines of \<^verbatim>\<open>fetch_text\<close>, applied to the extracted text.\<close>

definition normalize :: "string \<Rightarrow> string" where
  "normalize text = strip (sub_ws False text)"

text \<open>
  What lies outside the script is a parameter of the model:
  \<^item> \<open>http_extract url\<close> is the outcome of the request and of the extraction
    (\<^verbatim>\<open>extract(html, ...) or ""\<close>): \<open>Inl\<close> with the message of the exception raised, or
    \<open>Inr\<close> with the extracted text;
  \<^item> \<open>now url\<close> is \<^verbatim>\<open>int(time.time())\<close> when the event for that source is built, and
    \<open>token url\<close> the first 12 hexadecimal digits of the SHA-1 of time and URL;
  \<^item> \<open>can_write path\<close> says whether writing or appending to that file succeeds;
  \<^item> \<open>slack_webhook\<close>, \<open>github_token\<close> and \<open>repo\<close> are the three environment variables.
\<close>

record env =
  http_extract :: "string \<Rightarrow> string + string"
  now :: "string \<Rightarrow> int"
  token :: "string \<Rightarrow> string"
  can_write :: "string \<Rightarrow> bool"
  slack_webhook :: "string option"
  github_token :: "string option"
  repo :: "string option"

definition fetch_text :: "env \<Rightarrow> string \<Rightarrow> string + string" where
  "fetch_text e u =
     (case http_extract e u of Inl msg \<Rightarrow> Inl msg | Inr text \<Rightarrow> Inr (normalize text))"

subsection \<open>\<^verbatim>\<open>post_slack\<close> and \<^verbatim>\<open>create_issue\<close>\<close>

text \<open>The exceptions that can leave \<^verbatim>\<open>run\<close>.\<close>

datatype error = OSError | KeyError

record slack_payload =
  color :: string
  title_of :: string
  title_link :: string
  text_of :: string

definition slack_colors :: "(string \<times> string) list" where
  "slack_colors = [(''low'', ''#8ea6c9''), (''medium'', ''#f2c744''),
                   (''high'', ''#f29f05''), (''critical'', ''#d73a49'')]"

text \<open>\<^verbatim>\<open>if not x\<close> for an environment variable: it is unset or empty.\<close>

definition falsy :: "string option \<Rightarrow> bool" where
  "falsy x = (x = None \<or> x = Some [])"

text \<open>
  \<^verbatim>\<open>post_slack\<close>: nothing without a webhook; otherwise the colour is looked up, which
  raises \<^verbatim>\<open>KeyError\<close> for an unknown severity, and the payload is posted. An exception
  of the post itself is swallowed. The result is the payload handed to the post.
\<close>

definition post_slack :: "env \<Rightarrow> string \<Rightarrow> string \<Rightarrow> string \<Rightarrow> string \<Rightarrow> error + slack_payload option" where
  "post_slack e title' summary u sev =
     (if falsy (slack_webhook e) then Inr None
      else case map_of slack_colors sev of
             None \<Rightarrow> Inl KeyError
           | Some c \<Rightarrow> Inr (Some \<lparr>color = c, title_of = title', title_link = u, text_of = summary\<rparr>))"

text \<open>\<^verbatim>\<open>create_issue\<close>: the title and body posted, if token and repository are set.\<close>

definition create_issue :: "env \<Rightarrow> string \<Rightarrow> string \<Rightarrow> (string \<times> string) option" where
  "create_issue e title' body =
     (if falsy (github_token e) \<or> falsy (repo e) then None else Some (title', body))"

subsection \<open>\<^verbatim>\<open>run\<close>\<close>

text \<open>One entry of \<^verbatim>\<open>config["sources"]\<close>: its keys vendor, slug, type and url.\<close>

record source =
  s_vendor :: string
  s_slug :: string
  s_typ :: string
  s_url :: string

text \<open>
  An event, one line of \<^verbatim>\<open>data/events.jsonl\<close>: the keys written by \<^verbatim>\<open>run\<close>, followed by
  those of the classification (\<^verbatim>\<open>**meta\<close>). \<open>kind\<close> is the key \<^verbatim>\<open>"type"\<close>.
\<close>

record event = classification +
  ts :: int
  vendor :: string
  slug :: string
  kind :: string
  url :: string
  diff_file :: string
  magnitude :: nat

text \<open>
  The state that \<^verbatim>\<open>run\<close> reads and changes: the text files below the root directory by
  their relative path (snapshots and diffs), the event log (oldest first), what was
  printed, and what was posted to Slack and to the issue tracker.
\<close>

record world =
  files :: "string \<rightharpoonup> string"
  event_log :: "event list"
  stdout :: "string list"
  slack_posts :: "slack_payload list"
  issues :: "(string \<times> string) list"

text \<open>\<^verbatim>\<open>path.write_text(text)\<close>.\<close>

definition write_text :: "env \<Rightarrow> string \<Rightarrow> string \<Rightarrow> world \<Rightarrow> error + world" where
  "write_text e path text w =
     (if can_write e path then Inr (w\<lparr>files := (files w)(path \<mapsto> text)\<rparr>) else Inl OSError)"

text \<open>Opening \<^verbatim>\<open>EVENTS\<close> for appending and writing one line.\<close>

definition EVENTS :: string where
  "EVENTS = ''data/events.jsonl''"

definition append_event :: "env \<Rightarrow> event \<Rightarrow> world \<Rightarrow> error + world" where
  "append_event e ev w =
     (if can_write e EVENTS then Inr (w\<lparr>event_log := event_log w @ [ev]\<rparr>) else Inl OSError)"

definition snap_path :: "source \<Rightarrow> string" where
  "snap_path s = ''data/snapshots/'' @ s_slug s @ ''-'' @ s_typ s @ ''.txt''"

definition diff_path :: "env \<Rightarrow> source \<Rightarrow> string" where
  "diff_path e s =
     ''data/diffs/'' @ s_slug s @ ''-'' @ s_typ s @ ''-'' @ token e (s_url s) @ ''.diff''"

text \<open>How the body of the loop ends for one source.\<close>

datatype outcome = FetchError | NoChange | Recorded | Raised error

text \<open>
  The part of the loop body after the test \<^verbatim>\<open>if not changed\<close>: the three writes, then the
  two notifications. An exception ends it with the state reached so far. (The dash in
  the title is U+2014 in the source; it is written as a hyphen here.)
\<close>

definition record_change ::
    "env \<Rightarrow> source \<Rightarrow> string \<Rightarrow> string \<Rightarrow> string \<Rightarrow> nat \<Rightarrow> world \<Rightarrow> outcome \<times> world" where
  "record_change e s before after diff_text magn w =
     (case write_text e (snap_path s) after w of
        Inl err \<Rightarrow> (Raised err, w)
      | Inr w1 \<Rightarrow>
     (case write_text e (diff_path e s) diff_text w1 of
        Inl err \<Rightarrow> (Raised err, w1)
      | Inr w2 \<Rightarrow>
     (let meta = classify before after diff_text;
          ev = \<lparr>category = category meta, severity = severity meta, tldr = tldr meta,
                effective_date = effective_date meta,
                ts = now e (s_url s), vendor = s_vendor s, slug = s_slug s, kind = s_typ s,
                url = s_url s, diff_file = diff_path e s, magnitude = magn\<rparr>
      in case append_event e ev w2 of
        Inl err \<Rightarrow> (Raised err, w2)
      | Inr w3 \<Rightarrow>
     (let title' = s_vendor s @ '' '' @ title (s_typ s) @ '' update - '' @ upper (severity meta);
          summary = tldr meta @ ''. '' @
            (case effective_date meta of Some d \<Rightarrow> ''Effective '' @ d | None \<Rightarrow> [])
      in case post_slack e title' summary (s_url s) (severity meta) of
        Inl err \<Rightarrow> (Raised err, w3)
      | Inr posted \<Rightarrow>
     (let w4 = w3\<lparr>slack_posts := slack_posts w3 @ (case posted of Some p \<Rightarrow> [p] | None \<Rightarrow> [])\<rparr>;
          issue_body = summary @ [CHR 0x0A, CHR 0x0A] @ ''Diff: ./'' @ diff_path e s @
            [CHR 0x0A] @ ''Source: '' @ s_url s;
          w5 = w4\<lparr>issues := issues w4 @
                 (case create_issue e title' issue_body of Some i \<Rightarrow> [i] | None \<Rightarrow> [])\<rparr>
      in (Recorded,
          w5\<lparr>stdout := stdout w5 @
                [''[+] Change recorded for '' @ s_vendor s @ '' '' @ s_typ s]\<rparr>))))))"

text \<open>The body of the loop of \<^verbatim>\<open>run\<close> for one source.\<close>

definition process_source :: "env \<Rightarrow> source \<Rightarrow> world \<Rightarrow> outcome \<times> world" where
  "process_source e s w =
     (let before = (case files w (snap_path s) of Some t \<Rightarrow> t | None \<Rightarrow> [])
      in case fetch_text e (s_url s) of
           Inl msg \<Rightarrow>
             (FetchError, w\<lparr>stdout := stdout w @ [''Fetch error '' @ s_url s @ '': '' @ msg]\<rparr>)
         | Inr after \<Rightarrow>
             (case meaningful_delta before after of (changed, diff_text, magn) \<Rightarrow>
                if \<not> changed
                then (NoChange,
                      w\<lparr>stdout := stdout w @
                         [''[=] '' @ s_vendor s @ '' '' @ s_typ s @ '': no meaningful change'']\<rparr>)
                else record_change e s before after diff_text magn w))"

text \<open>
  \<^verbatim>\<open>run\<close> over the configured sources: an exception that leaves the body ends the run.
\<close>

fun run :: "env \<Rightarrow> source list \<Rightarrow> world \<Rightarrow> error option \<times> world" where
  "run e [] w = (None, w)"
| "run e (s # sources) w =
     (case process_source e s w of
        (Raised err, w') \<Rightarrow> (Some err, w')
      | (_, w') \<Rightarrow> run e sources w')"


section \<open>\<^verbatim>\<open>scripts/build_site.py\<close>\<close>

text \<open>
  A line of the event log either parses to an event or does not (\<open>None\<close>); a line that
  does not is skipped.
\<close>

definition load_events :: "event option list \<Rightarrow> event list" where
  "load_events lines = concat (map (\<lambda>l. case l of Some ev \<Rightarrow> [ev] | None \<Rightarrow> []) lines)"

text \<open>\<^verbatim>\<open>events.sort(key=lambda e: e["ts"], reverse=True)\<close>: stable, newest first.\<close>

definition sort_events :: "event list \<Rightarrow> event list" where
  "sort_events evs = sort_key (\<lambda>ev. - ts ev) evs"

text \<open>\<^verbatim>\<open>Path(p).name\<close>: the part after the last slash.\<close>

definition path_name :: "string \<Rightarrow> string" where
  "path_name p = rev (takeWhile (\<lambda>c. c \<noteq> CHR ''/'') (rev p))"

text \<open>
  The loop that copies diff files; \<open>fs\<close> holds the text files below the root directory by
  relative path.
\<close>

fun copy_diffs :: "event list \<Rightarrow> (string \<rightharpoonup> string) \<Rightarrow> (string \<rightharpoonup> string)" where
  "copy_diffs [] fs = fs"
| "copy_diffs (ev # evs) fs =
     copy_diffs evs
       (case fs (diff_file ev) of
          Some text \<Rightarrow> fs(''docs/diffs/'' @ path_name (diff_file ev) \<mapsto> text)
        | None \<Rightarrow> fs)"

text \<open>\<^verbatim>\<open>html.escape\<close> with its default \<^verbatim>\<open>quote=True\<close>.\<close>

definition escape_char :: "char \<Rightarrow> string" where
  "escape_char c =
     (if c = CHR ''&'' then ''&amp;''
      else if c = CHR ''<'' then ''&lt;''
      else if c = CHR ''>'' then ''&gt;''
      else if c = CHR 0x22 then ''&quot;''
      else if c = CHR 0x27 then ''&#x27;''
      else [c])"

definition escape :: "string \<Rightarrow> string" where
  "escape s = concat (map escape_char s)"

text \<open>
  \<^verbatim>\<open>row(e)\<close>. The rendering of the time, \<^verbatim>\<open>time.strftime("%Y-%m-%d %H:%M", time.gmtime(ts))\<close>,
  is the parameter \<open>strftime\<close>.
\<close>

definition row :: "(int \<Rightarrow> string) \<Rightarrow> event \<Rightarrow> string" where
  "row strftime ev =
     ''<tr><td>'' @ strftime (ts ev) @ ''</td><td>'' @ escape (vendor ev) @ ''</td><td>'' @
     escape (kind ev) @ ''</td><td>'' @ escape (severity ev) @ ''</td><td><a href='' @ [CHR 0x27] @
     escape (url ev) @ [CHR 0x27] @ ''>source</a> '' @ [CHR 0xB7] @ '' <a href='' @ [CHR 0x27] @
     ''diffs/'' @ path_name (diff_file ev) @ [CHR 0x27] @ ''>diff</a></td></tr>''"

text \<open>
  The script: the files after the copies, and the rows that \<^verbatim>\<open>html_page\<close> puts into its
  table, in their order. (The fixed text of the page around the rows is left out.)
\<close>

definition build_site ::
    "(int \<Rightarrow> string) \<Rightarrow> event option list \<Rightarrow> (string \<rightharpoonup> string) \<Rightarrow> (string \<rightharpoonup> string) \<times> string list" where
  "build_site strftime lines fs =
     (let evs = sort_events (load_events lines)
      in (copy_diffs (take 200 evs) fs, map (row strftime) evs))"


section \<open>Notions and inputs that the properties refer to\<close>

text \<open>The value \<open>numb\<close> that the loop of \<^verbatim>\<open>quick_ratio\<close> reads for an element.\<close>

definition numb_of :: "('a \<rightharpoonup> int) \<Rightarrow> ('a \<rightharpoonup> int) \<Rightarrow> 'a \<Rightarrow> int" where
  "numb_of fbc avail elt =
     (case avail elt of Some n \<Rightarrow> n | None \<Rightarrow> (case fbc elt of Some n \<Rightarrow> n | None \<Rightarrow> 0))"

text \<open>A text without any line boundary: \<^verbatim>\<open>splitlines\<close> gives at most one line.\<close>

definition single_line :: "string \<Rightarrow> bool" where
  "single_line s = list_all (\<lambda>c. \<not> islinebreak c) s"

text \<open>The two texts of the second end-to-end scenario of the specification.\<close>

definition scenario2_before :: string where
  "scenario2_before = ''Service is provided as-is.''"

definition scenario2_after :: string where
  "scenario2_after = ''Service is provided as-is. We may terminate your account for any reason without notice, effective January 1, 2025.''"

text \<open>The new text of the first end-to-end scenario.\<close>

definition scenario1_after :: string where
  "scenario1_after = ''Our pricing is $10/month.''"

text \<open>Nine lines, for a snapshot that differs from a fetched text in more than eight lines.\<close>

definition sections :: "string list" where
  "sections = [''Section01'', ''Section02'', ''Section03'', ''Section04'', ''Section05'',
               ''Section06'', ''Section07'', ''Section08'', ''Section09'']"

text \<open>The unified diff from these nine lines to the single line \<^verbatim>\<open>New\<close>.\<close>

definition sections_diff :: "string list" where
  "sections_diff =
     [''--- '', ''+++ '', ''@@ -1,9 +1 @@''] @ map (\<lambda>l. ''-'' @ l) sections @ [''+New'']"

text \<open>
  A source, and an environment in which its page reads \<^verbatim>\<open>New\<close> and every file can be
  written except the diff file of that source.
\<close>

definition acme :: source where
  "acme = \<lparr>s_vendor = ''Acme'', s_slug = ''acme'', s_typ = ''tos'',
           s_url = ''https://acme.example/tos''\<rparr>"

definition env_diff_fails :: env where
  "env_diff_fails =
     \<lparr>http_extract = (\<lambda>u. Inr ''New''), now = (\<lambda>u. 1700000000),
      token = (\<lambda>u. ''0123456789ab''),
      can_write = (\<lambda>p. p \<noteq> ''data/diffs/acme-tos-0123456789ab.diff''),
      slack_webhook = None, github_token = None, repo = None\<rparr>"

text \<open>A state in which the snapshot of that source holds the nine lines.\<close>

definition world_sections :: world where
  "world_sections =
     \<lparr>files = [''data/snapshots/acme-tos.txt'' \<mapsto> join [CHR 0x0A] sections],
      event_log = [], stdout = [], slack_posts = [], issues = []\<rparr>"

text \<open>
  An environment in which the page of every source reads as the new text of the first
  scenario and every write succeeds, and the state before the first run: no file, no
  event.
\<close>

definition env_scenario1 :: env where
  "env_scenario1 =
     \<lparr>http_extract = (\<lambda>u. Inr scenario1_after), now = (\<lambda>u. 1700000000),
      token = (\<lambda>u. ''0123456789ab''), can_write = (\<lambda>p. True),
      slack_webhook = None, github_token = None, repo = None\<rparr>"

definition world_empty :: world where
  "world_empty = \<lparr>files = Map.empty, event_log = [], stdout = [], slack_posts = [], issues = []\<rparr>"

text \<open>An event with a given time stamp, and a log of 201 of them.\<close>

definition event_at :: "int \<Rightarrow> event" where
  "event_at t =
     \<lparr>category = ''privacy'', severity = ''low'', tldr = ''Privacy change detected'',
      effective_date = None, ts = t, vendor = ''Acme'', slug = ''acme'', kind = ''tos'',
      url = ''https://acme.example/tos'', diff_file = ''data/diffs/acme-tos-0123456789ab.diff'',
      magnitude = 10\<rparr>"

definition log_201 :: "event option list" where
  "log_201 = map (\<lambda>n. Some (event_at (int n))) [0..<201]"


section \<open>Properties\<close>

subsection \<open>The similarity ratio of a text with itself\<close>

lemma fullbcount_fold:
  "fold (\<lambda>elt m. m(elt \<mapsto> (case m elt of None \<Rightarrow> 0 | Some n \<Rightarrow> n) + 1)) b m x =
     (if x \<in> set b then Some ((case m x of None \<Rightarrow> 0 | Some n \<Rightarrow> n) + int (count_list b x))
      else m x)"
  by (induction b arbitrary: m) auto

lemma fullbcount_count:
  "fullbcount b x = (if x \<in> set b then Some (int (count_list b x)) else None)"
  by (simp add: fullbcount_def fullbcount_fold)

lemma quick_loop_all_match:
  "(\<forall>x. int (count_list xs x) \<le> numb_of fbc avail x) \<Longrightarrow>
     quick_loop fbc avail matches xs = matches + length xs"
proof (induction xs arbitrary: avail matches)
  case Nil
  then show ?case by simp
next
  case (Cons elt rest)
  from Cons.prems have "int (count_list (elt # rest) elt) \<le> numb_of fbc avail elt" by blast
  then have pos: "0 < numb_of fbc avail elt" by simp
  have rest: "\<forall>x. int (count_list rest x) \<le> numb_of fbc (avail(elt \<mapsto> numb_of fbc avail elt - 1)) x"
  proof
    fix x
    from Cons.prems have "int (count_list (elt # rest) x) \<le> numb_of fbc avail x" by blast
    then show "int (count_list rest x) \<le> numb_of fbc (avail(elt \<mapsto> numb_of fbc avail elt - 1)) x"
      by (cases "x = elt") (auto simp: numb_of_def)
  qed
  have "quick_loop fbc avail matches (elt # rest) =
        quick_loop fbc (avail(elt \<mapsto> numb_of fbc avail elt - 1)) (matches + 1) rest"
    using pos by (simp add: numb_of_def Let_def)
  also have "\<dots> = matches + 1 + length rest"
    by (rule Cons.IH[OF rest])
  finally show ?case by simp
qed

lemma quick_ratio_same: "quick_ratio xs xs = 1"
proof -
  have "\<forall>x. int (count_list xs x) \<le> numb_of (fullbcount xs) Map.empty x"
    by (simp add: numb_of_def fullbcount_count)
  then have "quick_loop (fullbcount xs) Map.empty 0 xs = length xs"
    using quick_loop_all_match[of xs "fullbcount xs" Map.empty 0] by simp
  then show ?thesis by (simp add: quick_ratio_def calculate_ratio_def)
qed

subsection \<open>Running the diff on given lines\<close>

text \<open>
  The definitions by which the simplifier runs the model of \<^verbatim>\<open>difflib\<close> on given lines,
  and the two loops whose equations bind a value with \<open>let\<close>, written without it.
\<close>

lemmas difflib_eval = 
  chain_b_def j2lenget_def find_longest_match_def extend_left.simps extend_right.simps
  get_matching_blocks_def get_opcodes_def fix_first_def fix_last_def get_grouped_opcodes_def
  format_range_unified_def slice_def hunk_lines_def unified_diff_def str_nat.simps digit_char_def
  Let_def upt_conv_Cons enumerate_eq_zip

lemma scan_js_step:
  "scan_js blo bhi i j2len (j # js) (newj2len, besti, bestj, bestsize) =
     (if j < blo then scan_js blo bhi i j2len js (newj2len, besti, bestj, bestsize)
      else if j \<ge> bhi then (newj2len, besti, bestj, bestsize)
      else scan_js blo bhi i j2len js
             (newj2len(j \<mapsto> j2lenget j2len j + 1),
              if j2lenget j2len j + 1 > bestsize
              then (i + 1 - (j2lenget j2len j + 1), j + 1 - (j2lenget j2len j + 1),
                    j2lenget j2len j + 1)
              else (besti, bestj, bestsize)))"
  by (simp add: Let_def)

lemma quick_loop_step:
  "quick_loop fbc avail matches (elt # rest) =
     quick_loop fbc (avail(elt \<mapsto> numb_of fbc avail elt - 1))
       (if numb_of fbc avail elt > 0 then matches + 1 else matches) rest"
  by (simp add: numb_of_def Let_def)

lemmas ratio_eval = quick_ratio_def calculate_ratio_def fullbcount_def quick_loop_step numb_of_def


lemma unified_diff_Nil_one: "unified_diff [] [y] = [''--- '', ''+++ '', ''@@ -0,0 +1 @@'', ''+'' @ y]"
  by (simp add: difflib_eval)



lemma unified_diff_one_one:
  "x \<noteq> y \<Longrightarrow> unified_diff [x] [y] = [''--- '', ''+++ '', ''@@ -1 +1 @@'', ''-'' @ x, ''+'' @ y]"
  by (simp add: difflib_eval)

subsection \<open>Texts without a line boundary\<close>

lemma not_linebreak_not_CR: "\<not> islinebreak c \<Longrightarrow> c \<noteq> CHR 0x0D"
  by (auto simp: islinebreak_def)

lemma splitlines_acc_single_line:
  "single_line s \<Longrightarrow> splitlines_acc cur s = (if cur @ s = [] then [] else [cur @ s])"
proof (induction cur s rule: splitlines_acc.induct)
  case (1 cur)
  then show ?case by simp
next
  case (2 cur c)
  then show ?case by (simp add: single_line_def)
next
  case (3 cur c d cs)
  from "3.prems" have c: "\<not> islinebreak c" and rest: "single_line (d # cs)"
    by (simp_all add: single_line_def)
  from c have cr: "c \<noteq> CHR 0x0D" by (rule not_linebreak_not_CR)
  then have n: "\<not> (c = CHR 0x0D \<and> d = CHR 0x0A)" by simp
  have "splitlines_acc cur (c # d # cs) = splitlines_acc (cur @ [c]) (d # cs)"
    using c cr by simp
  also have "\<dots> = (if (cur @ [c]) @ d # cs = [] then [] else [(cur @ [c]) @ d # cs])"
    by (rule "3.IH"(3)[OF n c rest])
  finally show ?case by simp
qed

lemma splitlines_single_line:
  "single_line s \<Longrightarrow> splitlines s = (if s = [] then [] else [s])"
  by (simp add: splitlines_def splitlines_acc_single_line)

lemma splitlines_acc_LF:
  "single_line l \<Longrightarrow>
     splitlines_acc cur (l @ CHR 0x0A # rest) = (cur @ l) # splitlines_acc [] rest"
proof (induction l arbitrary: cur)
  case Nil
  show ?case by (cases rest) (simp_all add: islinebreak_def)
next
  case (Cons c l)
  from Cons.prems have c: "\<not> islinebreak c" and l: "single_line l"
    by (simp_all add: single_line_def)
  from c have cr: "c \<noteq> CHR 0x0D" by (rule not_linebreak_not_CR)
  obtain d cs where dcs: "l @ CHR 0x0A # rest = d # cs"
    by (cases "l @ CHR 0x0A # rest") auto
  have "splitlines_acc cur ((c # l) @ CHR 0x0A # rest) = splitlines_acc cur (c # d # cs)"
    using dcs by simp
  also have "\<dots> = splitlines_acc (cur @ [c]) (d # cs)"
    using c cr by simp
  also have "\<dots> = (cur @ c # l) # splitlines_acc [] rest"
    using Cons.IH[OF l, of "cur @ [c]"] dcs by simp
  finally show ?case .
qed

lemma splitlines_join:
  "list_all single_line ls \<Longrightarrow> list_all (\<lambda>l. l \<noteq> []) ls \<Longrightarrow>
     splitlines (join [CHR 0x0A] ls) = ls"
proof (induction "[CHR 0x0A]" ls rule: join.induct)
  case 1
  show ?case by (simp add: splitlines_def)
next
  case (2 x)
  then show ?case by (simp add: splitlines_single_line)
next
  case (3 x y ys)
  from 3(2) have x: "single_line x" by simp
  from 3 have "splitlines (join [CHR 0x0A] (y # ys)) = y # ys" by simp
  then show ?case
    using splitlines_acc_LF[OF x, of "[]" "join [CHR 0x0A] (y # ys)"]
    by (simp add: splitlines_def)
qed

text \<open>
  When no line of the diff is empty or holds a line boundary, the flag, the text and the
  magnitude that \<^verbatim>\<open>meaningful_delta\<close> returns are read off the lines of the diff.
\<close>

lemma meaningful_delta_lines:
  assumes "unified_diff (splitlines a) (splitlines b) = ls"
    and "list_all single_line ls" and "list_all (\<lambda>l. l \<noteq> []) ls"
  shows "meaningful_delta a b =
           (quick_ratio (split a) (split b) < 0.995 \<and> length (join [CHR 0x0A] ls) > 120
              \<and> length (filter counted ls) > 8,
            join [CHR 0x0A] ls, length (filter counted ls))"
  using splitlines_join[OF assms(2,3)] assms(1) by (simp add: meaningful_delta_def Let_def)

lemma header_lines_not_counted:
  "\<not> counted ''--- ''" "\<not> counted ''+++ ''"
  "\<not> counted ''@@ -0,0 +1 @@''" "\<not> counted ''@@ -1 +0,0 @@''" "\<not> counted ''@@ -1 +1 @@''"
  by (simp_all add: counted_def startswith_def)

lemma splitlines_Nil: "splitlines [] = []"
  by (simp add: splitlines_def)

text \<open>The four shapes of the result on texts without line boundaries.\<close>

lemma meaningful_delta_added:
  assumes "single_line b" "b \<noteq> []"
  shows "meaningful_delta [] b =
           (False, join [CHR 0x0A] [''--- '', ''+++ '', ''@@ -0,0 +1 @@'', ''+'' @ b],
            length (filter counted [''+'' @ b]))"
proof -
  have ud: "unified_diff (splitlines []) (splitlines b) =
              [''--- '', ''+++ '', ''@@ -0,0 +1 @@'', ''+'' @ b]"
    using assms by (simp add: splitlines_Nil splitlines_single_line unified_diff_Nil_one)
  show ?thesis
    using assms(1) by (subst meaningful_delta_lines[OF ud])
      (simp_all add: header_lines_not_counted single_line_def islinebreak_def)
qed


lemma meaningful_delta_replaced:
  assumes "single_line a" "a \<noteq> []" "single_line b" "b \<noteq> []" "a \<noteq> b"
  shows "meaningful_delta a b =
           (False,
            join [CHR 0x0A] [''--- '', ''+++ '', ''@@ -1 +1 @@'', ''-'' @ a, ''+'' @ b],
            length (filter counted [''-'' @ a, ''+'' @ b]))"
proof -
  have ud: "unified_diff (splitlines a) (splitlines b) =
              [''--- '', ''+++ '', ''@@ -1 +1 @@'', ''-'' @ a, ''+'' @ b]"
    using assms by (simp add: splitlines_single_line unified_diff_one_one)
  show ?thesis
    using assms(1,3) by (subst meaningful_delta_lines[OF ud])
      (simp_all add: header_lines_not_counted single_line_def islinebreak_def)
qed






subsection \<open>The given inputs\<close>

lemma sections_unified_diff: "unified_diff sections [''New''] = sections_diff"
  by (simp add: sections_def sections_diff_def difflib_eval scan_js_step del: scan_js.simps(2))

lemma sections_ratio:
  "quick_ratio (split (join [CHR 0x1E] sections)) (split ''New'') = 0"
  "quick_ratio (split (join [CHR 0x0A] sections)) (split ''New'') = 0"
  by (simp_all add: sections_def split_def isspace_def ratio_eval del: quick_loop.simps(2))

lemma sections_splitlines:
  "splitlines (join [CHR 0x1E] sections) = sections"
  "splitlines (join [CHR 0x0A] sections) = sections"
  "splitlines ''New'' = [''New'']"
  by (simp_all add: sections_def splitlines_def islinebreak_def)

lemma sections_diff_lines:
  "list_all single_line sections_diff" "list_all (\<lambda>l. l \<noteq> []) sections_diff"
  "length (filter counted sections_diff) = 10"
  "length (join [CHR 0x0A] sections_diff) = 127"
  by (simp_all add: sections_def sections_diff_def single_line_def islinebreak_def counted_def
        startswith_def)

lemma sections_meaningful:
  assumes "splitlines before = sections" "quick_ratio (split before) (split ''New'') = 0"
  shows "meaningful_delta before ''New'' = (True, join [CHR 0x0A] sections_diff, 10)"
proof -
  have ud: "unified_diff (splitlines before) (splitlines ''New'') = sections_diff"
    by (simp add: assms(1) sections_splitlines(3) sections_unified_diff)
  show ?thesis
    by (subst meaningful_delta_lines[OF ud sections_diff_lines(1,2)])
       (simp add: assms(2) sections_diff_lines(3,4))
qed

lemma normalize_fixtures:
  "normalize ''New'' = ''New''" "normalize scenario1_after = scenario1_after"
  by (simp_all add: normalize_def strip_def isspace_def scenario1_after_def)

lemma fetch_fixtures:
  "fetch_text env_diff_fails u = Inr ''New''" "fetch_text env_scenario1 u = Inr scenario1_after"
  by (simp_all add: fetch_text_def env_diff_fails_def env_scenario1_def normalize_fixtures)

subsection \<open>The delta evaluator\<close>

text \<open>
  C7. Unchanged text is never a meaningful change: for every text \<open>a\<close>,
  \<^verbatim>\<open>meaningful_delta(a, a)\<close> returns \<^verbatim>\<open>changed = False\<close>. (The word multisets coincide, so
  the quick ratio is 1, which is not below 0.995.)
\<close>

theorem meaningful_delta_same: "fst (meaningful_delta a a) = False"
  by (simp add: meaningful_delta_def Let_def quick_ratio_same)





text \<open>
  C4. The magnitude is meant to be the number of added and removed lines of the returned
  diff, its two file-header lines apart. The count leaves out every line that starts
  with \<^verbatim>\<open>+++\<close> or \<^verbatim>\<open>---\<close>, and so also a removed line whose text starts with \<^verbatim>\<open>--\<close> (or an
  added one starting with \<^verbatim>\<open>++\<close>): from \<^verbatim>\<open>--x\<close> to \<^verbatim>\<open>y\<close> the diff has one removed and one
  added line after its header, and the magnitude returned is 1.
\<close>

theorem magnitude_misses_dashed_line:
  "meaningful_delta ''--x'' ''y'' =
     (False, join [CHR 0x0A] [''--- '', ''+++ '', ''@@ -1 +1 @@'', ''---x'', ''+y''], 1)
   \<and> length (filter (\<lambda>l. startswith l ''+'' \<or> startswith l ''-'')
        (drop 2 (splitlines (fst (snd (meaningful_delta ''--x'' ''y'')))))) = 2"
proof -
  have "meaningful_delta ''--x'' ''y'' =
     (False, join [CHR 0x0A] [''--- '', ''+++ '', ''@@ -1 +1 @@'', ''---x'', ''+y''], 1)"
    by (subst meaningful_delta_replaced)
       (simp_all add: single_line_def islinebreak_def counted_def startswith_def)
  then show ?thesis
    by (simp add: splitlines_def islinebreak_def startswith_def)
qed

subsection \<open>The classifier\<close>

lemma cats_loop_no_hits:
  "\<forall>(cat, kws) \<in> set cats. \<forall>k \<in> set kws. \<not> str_in k t \<Longrightarrow>
     cats_loop t cats (c, 0) = (c, 0)"
proof (induction cats)
  case Nil
  show ?case by simp
next
  case (Cons p cats)
  obtain cat kws where p: "p = (cat, kws)" by (cases p)
  from Cons.prems p have "filter (\<lambda>k. str_in k t) kws = []"
    by (auto simp: filter_empty_conv)
  moreover from Cons.prems have "\<forall>(cat, kws) \<in> set cats. \<forall>k \<in> set kws. \<not> str_in k t"
    by simp
  ultimately show ?case using Cons.IH p by simp
qed

text \<open>The operator \<^verbatim>\<open>in\<close> as modelled is the substring relation.\<close>

lemma str_in_iff: "str_in k t \<longleftrightarrow> (\<exists>u v. t = u @ k @ v)"
proof (induction t)
  case Nil
  then show ?case by auto
next
  case (Cons c cs)
  have "startswith (c # cs) k \<longleftrightarrow> (\<exists>v. c # cs = k @ v)"
    unfolding startswith_def by (metis append_eq_conv_conj append_take_drop_id)
  moreover have "(\<exists>u v. c # cs = u @ k @ v) \<longleftrightarrow> (\<exists>v. c # cs = k @ v) \<or> (\<exists>u v. cs = u @ k @ v)"
  proof
    assume "\<exists>u v. c # cs = u @ k @ v"
    then obtain u v where uv: "c # cs = u @ k @ v" by blast
    show "(\<exists>v. c # cs = k @ v) \<or> (\<exists>u v. cs = u @ k @ v)"
    proof (cases u)
      case Nil
      with uv show ?thesis by auto
    next
      case (Cons d u')
      with uv have "cs = u' @ k @ v" by simp
      then show ?thesis by blast
    qed
  next
    assume "(\<exists>v. c # cs = k @ v) \<or> (\<exists>u v. cs = u @ k @ v)"
    then show "\<exists>u v. c # cs = u @ k @ v"
    proof
      assume "\<exists>v. c # cs = k @ v"
      then show ?thesis by (metis append_Nil)
    next
      assume "\<exists>u v. cs = u @ k @ v"
      then obtain u v where "cs = u @ k @ v" by blast
      then have "c # cs = (c # u) @ k @ v" by simp
      then show ?thesis by blast
    qed
  qed
  ultimately show ?case using Cons.IH by simp
qed

text \<open>
  C8. If no keyword of any category occurs in the search text (the lower-cased new text
  followed by the changed lines of the diff), \<^verbatim>\<open>classify\<close> returns the severity
  \<^verbatim>\<open>low\<close> and the default category, \<^verbatim>\<open>privacy\<close>.
\<close>

theorem classify_no_keyword:
  assumes "\<forall>(cat, kws) \<in> set CATS. \<forall>k \<in> set kws. \<not> str_in k (search_text after diff_text)"
  shows "severity (classify before after diff_text) = ''low''
       \<and> category (classify before after diff_text) = ''privacy''"
  using cats_loop_no_hits[OF assms, of "''privacy''"] by (simp add: classify_def Let_def)

text \<open>The theorem at a first fetch of the text \<^verbatim>\<open>Hello world\<close>.\<close>

theorem classify_no_keyword_witness:
  "list_all (\<lambda>(cat, kws). list_all (\<lambda>k.
       \<not> str_in k (search_text ''Hello world''
              (join [CHR 0x0A] [''--- '', ''+++ '', ''@@ -0,0 +1 @@'', ''+Hello world'']))) kws)
     CATS
   \<and> severity (classify [] ''Hello world''
         (join [CHR 0x0A] [''--- '', ''+++ '', ''@@ -0,0 +1 @@'', ''+Hello world''])) = ''low''
   \<and> category (classify [] ''Hello world''
         (join [CHR 0x0A] [''--- '', ''+++ '', ''@@ -0,0 +1 @@'', ''+Hello world''])) = ''privacy''"
proof -
  have l: "list_all (\<lambda>(cat, kws). list_all (\<lambda>k.
       \<not> str_in k (search_text ''Hello world''
              (join [CHR 0x0A] [''--- '', ''+++ '', ''@@ -0,0 +1 @@'', ''+Hello world'']))) kws)
     CATS"
    by code_simp
  then have h: "\<forall>(cat, kws) \<in> set CATS. \<forall>k \<in> set kws.
       \<not> str_in k (search_text ''Hello world''
              (join [CHR 0x0A] [''--- '', ''+++ '', ''@@ -0,0 +1 @@'', ''+Hello world'']))"
    unfolding list_all_iff by (simp only: case_prod_beta)
  from classify_no_keyword[OF h, of "[]"] l show ?thesis by blast
qed

text \<open>
  C10. For all three arguments, the severity that \<^verbatim>\<open>classify\<close> returns is one of
  \<^verbatim>\<open>low\<close>, \<^verbatim>\<open>medium\<close>, \<^verbatim>\<open>high\<close> and \<^verbatim>\<open>critical\<close>; so the colour lookup of \<^verbatim>\<open>post_slack\<close>
  on it never raises \<^verbatim>\<open>KeyError\<close>.
\<close>

theorem severity_has_color:
  "severity (classify before after diff_text) \<in> {''low'', ''medium'', ''high'', ''critical''}
   \<and> post_slack e title' summary u (severity (classify before after diff_text)) \<noteq> Inl KeyError"
  by (simp add: classify_def Let_def post_slack_def slack_colors_def split: prod.splits)

lemma scenario2_delta:
  "meaningful_delta scenario2_before scenario2_after =
     (False,
      join [CHR 0x0A] [''--- '', ''+++ '', ''@@ -1 +1 @@'', ''-'' @ scenario2_before,
                       ''+'' @ scenario2_after], 2)"
  by (subst meaningful_delta_replaced)
     (simp_all add: single_line_def islinebreak_def counted_def startswith_def
        scenario2_before_def scenario2_after_def)

lemma effective_date_classify:
  "effective_date (classify before after diff_text) =
     (case re_search effective_rx after of None \<Rightarrow> None | Some groups \<Rightarrow> groups 3)"
  by (simp add: classify_def Let_def split: prod.splits)

lemma scenario2_effective_date:
  "(case re_search effective_rx scenario2_after of None \<Rightarrow> None | Some groups \<Rightarrow> groups 3)
     = Some ''January 1, 2025''"
  by code_simp

text \<open>
  C6, with the flag as the code returns it. In the second scenario the diff replaces one
  line by one line, so the magnitude is 2, which is not above 8, and \<^verbatim>\<open>meaningful_delta\<close>
  returns the flag false; \<^verbatim>\<open>classify\<close> returns the effective date \<^verbatim>\<open>January 1, 2025\<close>.
\<close>

theorem scenario2_result:
  "meaningful_delta scenario2_before scenario2_after =
     (False,
      join [CHR 0x0A] [''--- '', ''+++ '', ''@@ -1 +1 @@'', ''-'' @ scenario2_before,
                       ''+'' @ scenario2_after], 2)
   \<and> effective_date (classify scenario2_before scenario2_after
         (fst (snd (meaningful_delta scenario2_before scenario2_after))))
       = Some ''January 1, 2025''"
  by (simp add: scenario2_delta effective_date_classify scenario2_effective_date)

text \<open>As first stated, with the flag true, the property fails.\<close>

theorem scenario2_not_meaningful_counterexample:
  "\<not> fst (meaningful_delta scenario2_before scenario2_after)"
  by (simp add: scenario2_delta)

subsection \<open>The recorder\<close>

lemma process_source_not_changed:
  assumes "fetch_text e (s_url s) = Inr after"
    and "\<not> fst (meaningful_delta (case files w (snap_path s) of Some t \<Rightarrow> t | None \<Rightarrow> []) after)"
  shows "process_source e s w =
           (NoChange, w\<lparr>stdout := stdout w @
              [''[=] '' @ s_vendor s @ '' '' @ s_typ s @ '': no meaningful change'']\<rparr>)"
proof -
  obtain changed diff_text magn where
    md: "meaningful_delta (case files w (snap_path s) of Some t \<Rightarrow> t | None \<Rightarrow> []) after
           = (changed, diff_text, magn)"
    by (cases "meaningful_delta (case files w (snap_path s) of Some t \<Rightarrow> t | None \<Rightarrow> []) after")
  with assms(2) have "\<not> changed" by simp
  with md assms(1) show ?thesis by (simp add: process_source_def Let_def)
qed

lemma process_source_changed:
  assumes "fetch_text e (s_url s) = Inr after"
    and "meaningful_delta (case files w (snap_path s) of Some t \<Rightarrow> t | None \<Rightarrow> []) after
           = (True, diff_text, magn)"
  shows "process_source e s w =
           record_change e s (case files w (snap_path s) of Some t \<Rightarrow> t | None \<Rightarrow> [])
             after diff_text magn w"
  using assms by (simp add: process_source_def Let_def)

lemma record_change_diff_fails:
  assumes "can_write e (snap_path s)" "\<not> can_write e (diff_path e s)"
  shows "record_change e s before after diff_text magn w =
           (Raised OSError, w\<lparr>files := (files w)(snap_path s \<mapsto> after)\<rparr>)"
  using assms by (simp add: record_change_def write_text_def)

lemma process_source_diff_fails:
  assumes "fetch_text e (s_url s) = Inr after"
    and "fst (meaningful_delta (case files w (snap_path s) of Some t \<Rightarrow> t | None \<Rightarrow> []) after)"
    and "can_write e (snap_path s)" and "\<not> can_write e (diff_path e s)"
  shows "process_source e s w = (Raised OSError, w\<lparr>files := (files w)(snap_path s \<mapsto> after)\<rparr>)"
proof -
  obtain changed diff_text magn where
    md: "meaningful_delta (case files w (snap_path s) of Some t \<Rightarrow> t | None \<Rightarrow> []) after
           = (changed, diff_text, magn)"
    by (cases "meaningful_delta (case files w (snap_path s) of Some t \<Rightarrow> t | None \<Rightarrow> []) after")
  with assms(2) have "changed" by simp
  with md process_source_changed[OF assms(1), of w diff_text magn]
    record_change_diff_fails[OF assms(3,4)]
  show ?thesis by simp
qed

lemma acme_paths:
  "snap_path acme = ''data/snapshots/acme-tos.txt''"
  "diff_path env_diff_fails acme = ''data/diffs/acme-tos-0123456789ab.diff''"
  "s_url acme = ''https://acme.example/tos''"
  by (simp_all add: snap_path_def diff_path_def acme_def env_diff_fails_def)

lemma acme_diff_fails:
  "process_source env_diff_fails acme world_sections =
     (Raised OSError, world_sections\<lparr>files := (files world_sections)(snap_path acme \<mapsto> ''New'')\<rparr>)"
proof (rule process_source_diff_fails)
  show "fetch_text env_diff_fails (s_url acme) = Inr ''New''" by (rule fetch_fixtures)
  show "fst (meaningful_delta
          (case files world_sections (snap_path acme) of Some t \<Rightarrow> t | None \<Rightarrow> []) ''New'')"
    by (simp add: acme_paths world_sections_def
          sections_meaningful[OF sections_splitlines(2) sections_ratio(2)])
  show "can_write env_diff_fails (snap_path acme)"
    by (simp add: acme_paths) (simp add: env_diff_fails_def)
  show "\<not> can_write env_diff_fails (diff_path env_diff_fails acme)"
    by (simp add: acme_paths) (simp add: env_diff_fails_def)
qed

text \<open>
  C1, with the order of the three writes as the code has it. When a meaningful change is
  recorded, the snapshot is overwritten first. If writing the diff file then fails, the
  exception ends the run: no event is appended to the log, and the snapshot of that
  source already holds the new text and stays so.
\<close>

theorem diff_write_failure:
  assumes "fetch_text e (s_url s) = Inr after"
    and "fst (meaningful_delta (case files w (snap_path s) of Some t \<Rightarrow> t | None \<Rightarrow> []) after)"
    and "can_write e (snap_path s)" and "\<not> can_write e (diff_path e s)"
  shows "process_source e s w = (Raised OSError, w\<lparr>files := (files w)(snap_path s \<mapsto> after)\<rparr>)
       \<and> event_log (snd (process_source e s w)) = event_log w
       \<and> files (snd (process_source e s w)) (snap_path s) = Some after
       \<and> run e (s # sources) w = (Some OSError, w\<lparr>files := (files w)(snap_path s \<mapsto> after)\<rparr>)"
  using process_source_diff_fails[OF assms] by simp

text \<open>The theorem at a snapshot of nine lines and a diff file that cannot be written.\<close>

theorem diff_write_failure_witness:
  "fetch_text env_diff_fails (s_url acme) = Inr ''New''
   \<and> fst (meaningful_delta
        (case files world_sections (snap_path acme) of Some t \<Rightarrow> t | None \<Rightarrow> []) ''New'')
   \<and> can_write env_diff_fails (snap_path acme)
   \<and> \<not> can_write env_diff_fails (diff_path env_diff_fails acme)
   \<and> event_log (snd (process_source env_diff_fails acme world_sections)) = []
   \<and> files (snd (process_source env_diff_fails acme world_sections)) (snap_path acme) = Some ''New''
   \<and> run env_diff_fails [acme] world_sections =
        (Some OSError, world_sections\<lparr>files := (files world_sections)(snap_path acme \<mapsto> ''New'')\<rparr>)"
proof -
  have h1: "fetch_text env_diff_fails (s_url acme) = Inr ''New''" by (rule fetch_fixtures)
  have h2: "fst (meaningful_delta
          (case files world_sections (snap_path acme) of Some t \<Rightarrow> t | None \<Rightarrow> []) ''New'')"
    by (simp add: acme_paths world_sections_def
          sections_meaningful[OF sections_splitlines(2) sections_ratio(2)])
  have h3: "can_write env_diff_fails (snap_path acme)"
    by (simp add: acme_paths) (simp add: env_diff_fails_def)
  have h4: "\<not> can_write env_diff_fails (diff_path env_diff_fails acme)"
    by (simp add: acme_paths) (simp add: env_diff_fails_def)
  have e: "event_log world_sections = []" by (simp add: world_sections_def)
  from diff_write_failure[OF h1 h2 h3 h4, of "[]"] h1 h2 h3 h4 e show ?thesis by simp
qed

text \<open>
  As first stated, with the snapshot left unchanged, the property fails: in that
  execution the snapshot holds the nine lines before and the new text after.
\<close>

theorem diff_write_failure_counterexample:
  "\<not> can_write env_diff_fails (diff_path env_diff_fails acme)
   \<and> fst (process_source env_diff_fails acme world_sections) = Raised OSError
   \<and> files world_sections ''data/snapshots/acme-tos.txt'' = Some (join [CHR 0x0A] sections)
   \<and> files (snd (process_source env_diff_fails acme world_sections)) ''data/snapshots/acme-tos.txt''
       = Some ''New''
   \<and> files (snd (process_source env_diff_fails acme world_sections)) ''data/snapshots/acme-tos.txt''
       \<noteq> files world_sections ''data/snapshots/acme-tos.txt''"
proof -
  have "\<not> can_write env_diff_fails (diff_path env_diff_fails acme)"
    by (simp add: acme_paths) (simp add: env_diff_fails_def)
  moreover have "files world_sections ''data/snapshots/acme-tos.txt'' = Some (join [CHR 0x0A] sections)"
    by (simp add: world_sections_def)
  moreover have "join [CHR 0x0A] sections \<noteq> ''New''"
    by (simp add: sections_def)
  ultimately show ?thesis
    by (simp add: acme_diff_fails acme_paths)
qed

lemma scenario1_delta:
  "meaningful_delta [] scenario1_after =
     (False, join [CHR 0x0A] [''--- '', ''+++ '', ''@@ -0,0 +1 @@'', ''+'' @ scenario1_after], 1)"
  by (subst meaningful_delta_added)
     (simp_all add: single_line_def islinebreak_def counted_def startswith_def scenario1_after_def)

lemma scenario1_category:
  "category (classify [] scenario1_after
     (join [CHR 0x0A] [''--- '', ''+++ '', ''@@ -0,0 +1 @@'', ''+'' @ scenario1_after])) = ''pricing''"
  by code_simp

lemma first_fetch_not_recorded:
  assumes "files w (snap_path s) = None" "fetch_text e (s_url s) = Inr scenario1_after"
  shows "process_source e s w =
           (NoChange, w\<lparr>stdout := stdout w @
              [''[=] '' @ s_vendor s @ '' '' @ s_typ s @ '': no meaningful change'']\<rparr>)"
  by (rule process_source_not_changed[OF assms(2)]) (simp add: assms(1) scenario1_delta)

text \<open>
  C5, with the outcome as the code produces it. In the first scenario (no snapshot yet,
  the new text as fetched) the diff adds one line, so the magnitude is 1 and
  \<^verbatim>\<open>meaningful_delta\<close> returns the flag false; the run takes the branch of no meaningful
  change, appends no event and writes no file. On these texts \<^verbatim>\<open>classify\<close> does give the
  category \<^verbatim>\<open>pricing\<close>.
\<close>

theorem scenario1_result:
  assumes "files w (snap_path s) = None" "fetch_text e (s_url s) = Inr scenario1_after"
  shows "meaningful_delta [] scenario1_after =
           (False, join [CHR 0x0A] [''--- '', ''+++ '', ''@@ -0,0 +1 @@'', ''+'' @ scenario1_after], 1)
       \<and> fst (process_source e s w) = NoChange
       \<and> event_log (snd (process_source e s w)) = event_log w
       \<and> files (snd (process_source e s w)) = files w
       \<and> category (classify [] scenario1_after (fst (snd (meaningful_delta [] scenario1_after))))
           = ''pricing''"
proof -
  have c: "category (classify [] scenario1_after (fst (snd (meaningful_delta [] scenario1_after))))
           = ''pricing''"
    by (simp only: scenario1_delta fst_conv snd_conv scenario1_category)
  from first_fetch_not_recorded[OF assms] c show ?thesis by (simp add: scenario1_delta)
qed

text \<open>The theorem at the first run for one source.\<close>

theorem scenario1_result_witness:
  "files world_empty (snap_path acme) = None
   \<and> fetch_text env_scenario1 (s_url acme) = Inr scenario1_after
   \<and> fst (process_source env_scenario1 acme world_empty) = NoChange
   \<and> event_log (snd (process_source env_scenario1 acme world_empty)) = []
   \<and> files (snd (process_source env_scenario1 acme world_empty)) = Map.empty"
proof -
  have h1: "files world_empty (snap_path acme) = None" by (simp add: world_empty_def)
  have h2: "fetch_text env_scenario1 (s_url acme) = Inr scenario1_after" by (rule fetch_fixtures)
  have e: "event_log world_empty = []" "files world_empty = Map.empty"
    by (simp_all add: world_empty_def)
  from scenario1_result[OF h1 h2] h1 h2 e show ?thesis by simp
qed

text \<open>As first stated, with an event created, the property fails: the log stays empty.\<close>

theorem scenario1_no_event_counterexample:
  "files world_empty (snap_path acme) = None
   \<and> fetch_text env_scenario1 (s_url acme) = Inr scenario1_after
   \<and> event_log (snd (run env_scenario1 [acme] world_empty)) = []"
proof -
  have h: "files world_empty (snap_path acme) = None" by (simp add: world_empty_def)
  from first_fetch_not_recorded[OF h fetch_fixtures(2)] h fetch_fixtures(2)[of "s_url acme"]
  show ?thesis by (simp add: world_empty_def)
qed

subsection \<open>The site renderer\<close>

lemma build_site_rows:
  "snd (build_site strftime lines fs) = map (row strftime) (sort_events (load_events lines))"
  by (simp add: build_site_def Let_def)

lemma load_events_log_201: "load_events log_201 = map (\<lambda>n. event_at (int n)) [0..<201]"
  by (simp add: load_events_def log_201_def comp_def concat_map_singleton)

lemma filter_eq_distinct:
  "distinct xs \<Longrightarrow> k \<in> set xs \<Longrightarrow> filter (\<lambda>x. k = x) xs = [k]"
proof (induction xs)
  case Nil
  then show ?case by simp
next
  case (Cons x xs)
  show ?case
  proof (cases "k = x")
    case True
    with Cons.prems have "filter (\<lambda>y. k = y) xs = []" by (auto simp: filter_empty_conv)
    with True show ?thesis by simp
  next
    case False
    with Cons show ?thesis by simp
  qed
qed

lemma sort_events_log_201:
  "sort_events (load_events log_201) = map (\<lambda>n. event_at (int n)) (rev [0..<201])"
  unfolding sort_events_def load_events_log_201
proof (rule properties_for_sort_key)
  let ?xs = "map (\<lambda>n. event_at (int n)) [0..<201]"
  let ?ys = "map (\<lambda>n. event_at (int n)) (rev [0..<201])"
  show "mset ?ys = mset ?xs"
    by (simp only: mset_map mset_rev)
  have inj: "inj_on (\<lambda>ev. - ts ev) (set ?xs)"
    by (auto simp: inj_on_def event_at_def)
  have d: "distinct ?xs"
    by (auto simp: distinct_map inj_on_def event_at_def)
  have ys: "?ys = rev ?xs" by (simp add: rev_map)
  show "filter (\<lambda>x. - ts k = - ts x) ?ys = filter (\<lambda>x. - ts k = - ts x) ?xs" if "k \<in> set ?ys" for k
  proof -
    from that have k: "k \<in> set ?xs" by (simp only: ys set_rev)
    have eq: "(\<lambda>x. - ts k = - ts x) y = (k = y)" if "y \<in> set ?xs" for y
      using inj k that by (auto simp: inj_on_def)
    have "filter (\<lambda>x. - ts k = - ts x) ?xs = filter (\<lambda>x. k = x) ?xs"
      by (rule filter_cong) (use eq in auto)
    moreover have "filter (\<lambda>x. - ts k = - ts x) (rev ?xs) = filter (\<lambda>x. k = x) (rev ?xs)"
      by (rule filter_cong) (use eq in auto)
    moreover have "filter (\<lambda>x. k = x) (rev ?xs) = [k]" "filter (\<lambda>x. k = x) ?xs = [k]"
      using d k by (simp_all add: filter_eq_distinct del: map_map)
    ultimately show ?thesis by (simp only: ys)
  qed
  have "map (\<lambda>ev. - ts ev) ?ys = rev (map (\<lambda>n. - int n) [0..<201])"
    by (simp add: rev_map comp_def event_at_def)
  moreover have "sorted (rev (map (\<lambda>n. - int n) [0..<201]))"
    unfolding sorted_rev_iff_nth_mono by auto
  ultimately show "sorted (map (\<lambda>ev. - ts ev) ?ys)"
    by simp
qed

text \<open>
  C9. The renderer is meant to show the most recent 200 events, the ones whose diff files
  it copies. The copy loop runs over the first 200 of the sorted events, but the table is
  built from all of them: for a log of 201 events the 200 newest are selected for the
  copy, and the table has 201 rows, the last one for the oldest event.
\<close>

theorem table_shows_all_events:
  "take 200 (sort_events (load_events log_201)) = map (\<lambda>n. event_at (int n)) (rev [1..<201])
   \<and> length (snd (build_site strftime log_201 fs)) = 201
   \<and> last (snd (build_site strftime log_201 fs)) = row strftime (event_at 0)"
proof -
  have r: "rev [0..<201] = rev [1..<201] @ [0]"
    by (simp add: upt_rec[of 0 201])
  have l: "length (rev [1..<201]) = 200" by simp
  show ?thesis
    unfolding build_site_rows sort_events_log_201 r
    by (simp only: map_append take_map take_append l) simp
qed

end
